theory Spec2Isabelle
  imports Main "HOL-Library.AList"
begin

section \<open>Data model of \<open>useForm\<close>\<close>

text \<open>
  The formatted failure structure returned by \<open>result.error.format()\<close>: every node is a
  plain object whose property \<open>_errors\<close> is an array of strings (the messages of this
  level) and whose other own properties are nodes again, one per failing key or index.
  \<open>children\<close> lists these other properties in the order of \<open>Object.entries\<close>. A JavaScript
  object has no two properties of one name and \<open>_errors\<close> names the messages, so the
  keys of \<open>children\<close> are pairwise distinct and different from \<open>_errors\<close>
  (\<open>wf_tree\<close> below).
\<close>

datatype ftree = Node (messages: "string list") (children: "(string \<times> ftree) list")

text \<open>An element of an issue's path is a property name or an array index.\<close>

datatype path_elem = PKey string | PIdx nat

record issue =
  path :: "path_elem list"
  message :: string

text \<open>
  What \<open>schema.safeParse(form)\<close> yields, as far as \<open>useForm\<close> reads it: the flag
  \<open>success\<close> and, on failure, \<open>error.format()\<close> and \<open>error.issues\<close>. The schema is a
  parameter of the form: a function from the form value to this result.
\<close>

datatype parse_result = Success | Failure ftree "issue list"

text \<open>
  The reactive state of one form: \<open>form\<close>, \<open>errors\<close> (a record from strings to strings, kept
  as an association list that is read through \<open>map_of\<close>) and the flag \<open>isSubmitting\<close>.
\<close>

record 'v form_state =
  form :: 'v
  errors :: "(string \<times> string) list"
  isSubmitting :: bool

section \<open>Strings: \<open>join\<close>, \<open>split\<close> and the text of a number\<close>

fun join :: "string \<Rightarrow> string list \<Rightarrow> string" where
  "join sep [] = []"
| "join sep [x] = x"
| "join sep (x # y # ys) = x @ sep @ join sep (y # ys)"

text \<open>\<open>s.split(c)\<close> for a one-character separator; the result is never empty.\<close>

fun split_on :: "char \<Rightarrow> string \<Rightarrow> string list" where
  "split_on c [] = [[]]"
| "split_on c (x # xs) =
     (if x = c then [] # split_on c xs
      else (x # hd (split_on c xs)) # tl (split_on c xs))"

definition digit_char :: "nat \<Rightarrow> char" where
  "digit_char d = ''0123456789'' ! (d mod 10)"

fun dec_str :: "nat \<Rightarrow> string" where
  "dec_str n = (if n < 10 then [digit_char n] else dec_str (n div 10) @ [digit_char n])"

declare dec_str.simps [simp del]

text \<open>\<open>Array.prototype.join\<close> turns every element into its string first.\<close>

fun elem_str :: "path_elem \<Rightarrow> string" where
  "elem_str (PKey k) = k"
| "elem_str (PIdx i) = dec_str i"

definition join_path :: "path_elem list \<Rightarrow> string" where
  "join_path ps = join ''.'' (map elem_str ps)"

section \<open>\<open>validate\<close>\<close>

text \<open>
  \<open>Object.keys(errors).forEach((key) => delete errors[key])\<close>: every key the object has
  at that moment is deleted, one after the other.
\<close>

definition clear_errors :: "(string \<times> string) list \<Rightarrow> (string \<times> string) list" where
  "clear_errors errs = fold AList.delete (map fst errs) errs"

text \<open>
  \<open>processErrors(errObj, parentPath)\<close>, with the \<open>forEach\<close> over \<open>Object.entries(errObj)\<close>
  as \<open>processEntries\<close>. On a node the guards \<open>!errObj || typeof errObj !== "object"\<close>,
  \<open>"_errors" in errObj\<close>, \<open>Array.isArray(errObj._errors)\<close> and, for a child,
  \<open>value && typeof value === "object"\<close> always take the same branch; what remains is
  \<open>errObj._errors.length > 0\<close>, the truthiness of \<open>parentPath\<close> (a string is truthy
  when it is not empty) and \<open>key !== "_errors"\<close>.
\<close>

definition newPath :: "string \<Rightarrow> string \<Rightarrow> string" where
  "newPath parentPath key = (if parentPath \<noteq> [] then parentPath @ ''.'' @ key else key)"

fun processErrors :: "ftree \<Rightarrow> string \<Rightarrow> (string \<times> string) list \<Rightarrow> (string \<times> string) list"
  and processEntries ::
    "(string \<times> ftree) list \<Rightarrow> string \<Rightarrow> (string \<times> string) list \<Rightarrow> (string \<times> string) list"
where
  "processErrors (Node msgs entries) parentPath errs =
     processEntries entries parentPath
       (if length msgs > 0 \<and> parentPath \<noteq> [] then AList.update parentPath (hd msgs) errs
        else errs)"
| "processEntries [] parentPath errs = errs"
| "processEntries ((key, val) # rest) parentPath errs =
     processEntries rest parentPath
       (if key \<noteq> ''_errors''
        then processErrors val (newPath parentPath key) errs
        else errs)"

text \<open>
  The block after the walk: when the root has messages, the first issue with a non-empty
  path receives the root's first message, at the path joined with dots. \<open>find\<close> yields
  \<open>undefined\<close> (\<open>None\<close>) when no issue has a path; the source tests the length of the
  found issue's path once more.
\<close>

definition refineErrors ::
  "ftree \<Rightarrow> issue list \<Rightarrow> (string \<times> string) list \<Rightarrow> (string \<times> string) list" where
  "refineErrors formattedErrors issues errs =
     (if length (messages formattedErrors) > 0 then
        (case find (\<lambda>issue. length (path issue) > 0) issues of
           Some issue \<Rightarrow>
             if length (path issue) > 0
             then AList.update (join_path (path issue)) (hd (messages formattedErrors)) errs
             else errs
         | None \<Rightarrow> errs)
      else errs)"

definition validate :: "('v \<Rightarrow> parse_result) \<Rightarrow> 'v form_state \<Rightarrow> bool \<times> 'v form_state" where
  "validate schema s =
     (let s1 = s\<lparr>errors := clear_errors (errors s)\<rparr> in
      case schema (form s1) of
        Failure formattedErrors issues \<Rightarrow>
          (False,
           s1\<lparr>errors :=
                 refineErrors formattedErrors issues
                   (processErrors formattedErrors [] (errors s1))\<rparr>)
      | Success \<Rightarrow> (True, s1))"

section \<open>\<open>validateField\<close>\<close>

text \<open>
  The loop over \<open>pathParts\<close>: \<open>errorObj\<close> moves to the property named by the part, or
  becomes \<open>null\<close> and the loop ends. A node's properties that are no child nodes
  (\<open>_errors\<close> itself and what a plain object inherits) lead to a value without messages
  of its own, which the test after the loop treats as \<open>null\<close>; in the model they are
  absent keys.
\<close>

fun descend :: "ftree \<Rightarrow> string list \<Rightarrow> ftree option" where
  "descend errorObj [] = Some errorObj"
| "descend errorObj (part # rest) =
     (case map_of (children errorObj) part of
        Some sub \<Rightarrow> descend sub rest
      | None \<Rightarrow> None)"

definition validateField ::
  "('v \<Rightarrow> parse_result) \<Rightarrow> string \<Rightarrow> 'v form_state \<Rightarrow> bool \<times> 'v form_state" where
  "validateField schema p s =
     (case schema (form s) of
        Failure formattedErrors issues \<Rightarrow>
          (case descend formattedErrors (split_on (CHR ''.'') p) of
             Some errorObj \<Rightarrow>
               if length (messages errorObj) > 0
               then (False, s\<lparr>errors := AList.update p (hd (messages errorObj)) (errors s)\<rparr>)
               else (True, s\<lparr>errors := AList.delete p (errors s)\<rparr>)
           | None \<Rightarrow> (True, s\<lparr>errors := AList.delete p (errors s)\<rparr>))
      | Success \<Rightarrow> (True, s\<lparr>errors := AList.delete p (errors s)\<rparr>))"

section \<open>\<open>handleSubmit\<close>\<close>

text \<open>
  The caller's \<open>onSubmit\<close> receives the copy \<open>{ ...form }\<close>. It is code of the caller: it
  may read and change the reactive state it closes over for as long as it runs, and it
  ends by returning (\<open>None\<close>) or by throwing or rejecting with some value (\<open>Some e\<close>).
\<close>

type_synonym ('v, 'e) handler = "'v \<Rightarrow> 'v form_state \<Rightarrow> 'e option \<times> 'v form_state"

text \<open>
  What the action can be observed to do beside changing the reactive state: the calls of
  the handler, each with its argument, and the values handed to \<open>console.error\<close>.
\<close>

record ('v, 'e) world =
  fstate :: "'v form_state"
  calls :: "'v list"
  console :: "'e list"

text \<open>
  The spread \<open>{ ...form }\<close> copies the own properties of \<open>form\<close> into a fresh object. Values
  of the model carry no identity, so the copy is the value itself; that nested objects
  stay shared with \<open>form\<close> is outside the model.
\<close>

definition snapshot :: "'v \<Rightarrow> 'v" where
  "snapshot v = v"

text \<open>
  \<open>try { body } catch (error) { handler } finally { cleanup }\<close> over computations that
  return how they ended (\<open>None\<close>: normally, \<open>Some e\<close>: by throwing \<open>e\<close>) and the new world.
  The \<open>catch\<close> block runs on what the body threw, the \<open>finally\<close> block runs in every case,
  and the statement ends as the \<open>finally\<close> block did if that threw, else as the
  \<open>try\<close>/\<open>catch\<close> part did.
\<close>

definition tryCatchFinally ::
  "('w \<Rightarrow> 'e option \<times> 'w) \<Rightarrow> ('e \<Rightarrow> 'w \<Rightarrow> 'e option \<times> 'w) \<Rightarrow> ('w \<Rightarrow> 'e option \<times> 'w)
     \<Rightarrow> 'w \<Rightarrow> 'e option \<times> 'w" where
  "tryCatchFinally body handler cleanup w =
     (case body w of
        (r1, w1) \<Rightarrow>
          (case (case r1 of Some e \<Rightarrow> handler e w1 | None \<Rightarrow> (None, w1)) of
             (r2, w2) \<Rightarrow>
               (case cleanup w2 of
                  (Some e, w3) \<Rightarrow> (Some e, w3)
                | (None, w3) \<Rightarrow> (r2, w3))))"

definition submitBody :: "('v, 'e) handler \<Rightarrow> ('v, 'e) world \<Rightarrow> 'e option \<times> ('v, 'e) world" where
  "submitBody onSubmit w =
     (let w1 = w\<lparr>fstate := (fstate w)\<lparr>isSubmitting := True\<rparr>\<rparr>;
          values = snapshot (form (fstate w1))
      in case onSubmit values (fstate w1) of
           (r, s2) \<Rightarrow> (r, w1\<lparr>fstate := s2, calls := calls w1 @ [values]\<rparr>))"

definition submitCatch :: "'e \<Rightarrow> ('v, 'e) world \<Rightarrow> 'e option \<times> ('v, 'e) world" where
  "submitCatch error w = (None, w\<lparr>console := console w @ [error]\<rparr>)"

definition submitFinally :: "('v, 'e) world \<Rightarrow> 'e option \<times> ('v, 'e) world" where
  "submitFinally w = (None, w\<lparr>fstate := (fstate w)\<lparr>isSubmitting := False\<rparr>\<rparr>)"

text \<open>
  The action returned by \<open>handleSubmit(onSubmit)\<close>, run to the end of its promise: the
  first component tells whether the promise is fulfilled (\<open>None\<close>) or rejected.
\<close>

definition handleSubmit ::
  "('v \<Rightarrow> parse_result) \<Rightarrow> ('v, 'e) handler \<Rightarrow> ('v, 'e) world \<Rightarrow> 'e option \<times> ('v, 'e) world" where
  "handleSubmit schema onSubmit w =
     (case validate schema (fstate w) of
        (isValid, s1) \<Rightarrow>
          if \<not> isValid then (None, w\<lparr>fstate := s1\<rparr>)
          else tryCatchFinally (submitBody onSubmit) submitCatch submitFinally
                 (w\<lparr>fstate := s1\<rparr>))"

section \<open>Well-formed failure structures\<close>

text \<open>
  The keys of one object are pairwise distinct, and no child is called \<open>_errors\<close>.
\<close>

fun wf_tree :: "ftree \<Rightarrow> bool" and wf_entries :: "(string \<times> ftree) list \<Rightarrow> bool" where
  "wf_tree (Node msgs entries) = (distinct (map fst entries) \<and> wf_entries entries)"
| "wf_entries [] = True"
| "wf_entries ((key, val) # rest) = (key \<noteq> ''_errors'' \<and> wf_tree val \<and> wf_entries rest)"

text \<open>A key with no dot in it; a structure in which no key, at any depth, has a dot.\<close>

definition dotless_key :: "string \<Rightarrow> bool" where
  "dotless_key k = (CHR ''.'' \<notin> set k)"

fun dotless_tree :: "ftree \<Rightarrow> bool" and dotless_entries :: "(string \<times> ftree) list \<Rightarrow> bool" where
  "dotless_tree (Node msgs entries) = dotless_entries entries"
| "dotless_entries [] = True"
| "dotless_entries ((key, val) # rest) =
     (dotless_key key \<and> dotless_tree val \<and> dotless_entries rest)"

text \<open>
  The keys of the root object itself are not empty. Keys further down may be: the walk
  drops a key from the path only while \<open>parentPath\<close> is still empty.
\<close>

definition named_roots :: "ftree \<Rightarrow> bool" where
  "named_roots t = list_all (\<lambda>entry. fst entry \<noteq> []) (children t)"

section \<open>Auxiliary facts\<close>

subsection \<open>Clearing, searching, unfolding \<open>validate\<close>\<close>

lemma fold_delete_filter:
  "fold AList.delete ks al = filter (\<lambda>kv. fst kv \<notin> set ks) al"
proof (induction ks arbitrary: al)
  case Nil
  show ?case by simp
next
  case (Cons k ks)
  have "AList.delete k al = filter (\<lambda>kv. fst kv \<noteq> k) al"
    by (induction al) auto
  then show ?case using Cons.IH [of "AList.delete k al"]
    by (auto intro: filter_cong)
qed

lemma clear_errors_empty: "clear_errors errs = []"
  unfolding clear_errors_def fold_delete_filter
  by (induction errs) auto

lemma find_first_match:
  "(\<forall>j \<in> set pre. \<not> P j) \<Longrightarrow> P i \<Longrightarrow> find P (pre @ i # post) = Some i"
  by (induction pre) auto

lemma find_no_match: "(\<forall>j \<in> set xs. \<not> P j) \<Longrightarrow> find P xs = None"
  by (induction xs) auto

lemma processErrors_root: "processErrors t [] errs = processErrors (Node [] (children t)) [] errs"
  by (cases t) simp

lemma validate_failure:
  "schema (form s) = Failure t issues \<Longrightarrow>
   validate schema s = (False, s\<lparr>errors := refineErrors t issues (processErrors t [] [])\<rparr>)"
  by (simp add: validate_def Let_def clear_errors_empty)

lemma descend_absent:
  "descend t pre = Some n \<Longrightarrow> map_of (children n) part = None \<Longrightarrow>
   descend t (pre @ part # post) = None"
  by (induction pre arbitrary: t) (auto split: option.splits)

subsection \<open>The walk of \<open>processErrors\<close>\<close>

text \<open>
  Three facts about the walk, for any starting map: an entry that is there stays there
  (with some message); every node with messages and a non-empty path string is written;
  and whatever the result holds was there before or is the first message of a node,
  at the path string the walk built for it (\<open>foldl newPath\<close> along the keys).
\<close>

lemma processErrors_keeps:
  "q \<in> dom (map_of errs) \<Longrightarrow> q \<in> dom (map_of (processErrors t pp errs))"
  "q \<in> dom (map_of errs) \<Longrightarrow> q \<in> dom (map_of (processEntries cs pp errs))"
proof (induction t pp errs and cs pp errs rule: processErrors_processEntries.induct)
  case (1 msgs entries parentPath errs)
  from "1.prems" have "q \<in> dom (map_of (if 0 < length msgs \<and> parentPath \<noteq> []
                     then AList.update parentPath (hd msgs) errs else errs))"
    by (auto simp: update_conv')
  from "1.IH" [OF this] show ?case by simp
next
  case (2 parentPath errs)
  then show ?case by simp
next
  case (3 key val rest parentPath errs)
  show ?case
  proof (cases "key \<noteq> ''_errors''")
    case True
    from "3.IH"(1) [OF True "3.prems"]
    have "q \<in> dom (map_of (processErrors val (newPath parentPath key) errs))" .
    with "3.IH"(2) True show ?thesis by simp
  next
    case False
    with "3.IH"(2) "3.prems" show ?thesis by simp
  qed
qed

lemma wf_entries_member:
  "wf_entries cs \<Longrightarrow> (k, c) \<in> set cs \<Longrightarrow> k \<noteq> ''_errors'' \<and> wf_tree c"
  by (induction cs) auto

lemma dotless_entries_member:
  "dotless_entries cs \<Longrightarrow> (k, c) \<in> set cs \<Longrightarrow> dotless_key k \<and> dotless_tree c"
  by (induction cs) auto

lemma processEntries_written:
  "(k, c) \<in> set cs \<Longrightarrow> k \<noteq> ''_errors'' \<Longrightarrow>
   (\<And>errs. q \<in> dom (map_of (processErrors c (newPath pp k) errs))) \<Longrightarrow>
   q \<in> dom (map_of (processEntries cs pp errs))"
proof (induction cs arbitrary: errs)
  case Nil
  then show ?case by simp
next
  case (Cons e cs)
  obtain k' c' where e: "e = (k', c')" by (cases e)
  show ?case
  proof (cases "(k, c) = e")
    case True
    with e Cons.prems have "q \<in> dom (map_of (processErrors c' (newPath pp k') errs))" by auto
    from processErrors_keeps(2) [OF this, of cs pp] e True Cons.prems(2) show ?thesis by auto
  next
    case False
    with Cons.prems have "(k, c) \<in> set cs" by auto
    from Cons.IH [OF this Cons.prems(2) Cons.prems(3)] e show ?thesis by simp
  qed
qed

lemma processErrors_written:
  "wf_tree t \<Longrightarrow> descend t ks = Some n \<Longrightarrow> messages n \<noteq> [] \<Longrightarrow> foldl newPath pp ks \<noteq> [] \<Longrightarrow>
   foldl newPath pp ks \<in> dom (map_of (processErrors t pp errs))"
proof (induction ks arbitrary: t pp errs)
  case Nil
  obtain msgs cs where t: "t = Node msgs cs" by (cases t)
  from Nil have "pp \<in> dom (map_of (AList.update pp (hd msgs) errs))"
    by (simp add: update_conv')
  from processErrors_keeps(2) [OF this, of cs pp] Nil t show ?case by auto
next
  case (Cons k ks)
  obtain msgs cs where t: "t = Node msgs cs" by (cases t)
  from Cons.prems(2) t obtain c where c: "map_of cs k = Some c" "descend c ks = Some n"
    by (auto split: option.splits)
  then have mem: "(k, c) \<in> set cs" by (auto dest: map_of_SomeD)
  with Cons.prems(1) t have wf: "k \<noteq> ''_errors''" "wf_tree c"
    using wf_entries_member [of cs k c] by auto
  have "\<And>errs. foldl newPath (newPath pp k) ks \<in> dom (map_of (processErrors c (newPath pp k) errs))"
    using Cons.IH [OF wf(2) c(2) Cons.prems(3)] Cons.prems(4) by simp
  from processEntries_written [OF mem wf(1) this] t show ?case by simp
qed

lemma processErrors_sound:
  "wf_tree t \<Longrightarrow> map_of (processErrors t pp errs) q = Some m \<Longrightarrow>
   map_of errs q = Some m \<or>
   (\<exists>ks n. descend t ks = Some n \<and> messages n \<noteq> [] \<and> q = foldl newPath pp ks \<and>
      q \<noteq> [] \<and> m = hd (messages n))"
  "wf_entries cs \<Longrightarrow> distinct (map fst cs) \<Longrightarrow> map_of (processEntries cs pp errs) q = Some m \<Longrightarrow>
   map_of errs q = Some m \<or>
   (\<exists>k c ks n. map_of cs k = Some c \<and> descend c ks = Some n \<and> messages n \<noteq> [] \<and>
      q = foldl newPath (newPath pp k) ks \<and> q \<noteq> [] \<and> m = hd (messages n))"
proof (induction t pp errs and cs pp errs rule: processErrors_processEntries.induct)
  case (1 msgs entries parentPath errs)
  let ?e1 = "if 0 < length msgs \<and> parentPath \<noteq> []
             then AList.update parentPath (hd msgs) errs else errs"
  from "1.prems" have wf: "wf_entries entries" "distinct (map fst entries)" by simp_all
  from "1.prems"(2) have "map_of (processEntries entries parentPath ?e1) q = Some m" by simp
  from "1.IH" [OF wf this]
  consider (old) "map_of ?e1 q = Some m"
    | (sub) k c ks n where "map_of entries k = Some c" "descend c ks = Some n"
        "messages n \<noteq> []" "q = foldl newPath (newPath parentPath k) ks" "q \<noteq> []"
        "m = hd (messages n)"
    by blast
  then show ?case
  proof cases
    case old
    show ?thesis
    proof (cases "map_of errs q = Some m")
      case True
      then show ?thesis by simp
    next
      case False
      with old have "0 < length msgs" "parentPath \<noteq> []" "q = parentPath" "m = hd msgs"
        by (auto simp: update_conv' split: if_splits)
      then have "descend (Node msgs entries) [] = Some (Node msgs entries) \<and>
                 messages (Node msgs entries) \<noteq> [] \<and> q = foldl newPath parentPath [] \<and>
                 q \<noteq> [] \<and> m = hd (messages (Node msgs entries))"
        by simp
      then show ?thesis by blast
    qed
  next
    case sub
    then have "descend (Node msgs entries) (k # ks) = Some n \<and> messages n \<noteq> [] \<and>
               q = foldl newPath parentPath (k # ks) \<and> q \<noteq> [] \<and> m = hd (messages n)"
      by simp
    then show ?thesis by blast
  qed
next
  case (2 parentPath errs)
  then show ?case by simp
next
  case (3 key val rest parentPath errs)
  let ?e1 = "if key \<noteq> ''_errors'' then processErrors val (newPath parentPath key) errs else errs"
  from "3.prems" have wf: "key \<noteq> ''_errors''" "wf_tree val" "wf_entries rest"
    "distinct (map fst rest)" "key \<notin> fst ` set rest"
    by simp_all
  from "3.prems"(3) have "map_of (processEntries rest parentPath ?e1) q = Some m" by simp
  from "3.IH"(2) [OF wf(3) wf(4) this]
  consider (old) "map_of ?e1 q = Some m"
    | (sub) k c ks n where "map_of rest k = Some c" "descend c ks = Some n"
        "messages n \<noteq> []" "q = foldl newPath (newPath parentPath k) ks" "q \<noteq> []"
        "m = hd (messages n)"
    by blast
  then show ?case
  proof cases
    case old
    with wf(1) have "map_of (processErrors val (newPath parentPath key) errs) q = Some m"
      by simp
    from "3.IH"(1) [OF wf(1) wf(2) this]
    show ?thesis
    proof
      assume "map_of errs q = Some m"
      then show ?thesis by simp
    next
      assume "\<exists>ks n. descend val ks = Some n \<and> messages n \<noteq> [] \<and>
                q = foldl newPath (newPath parentPath key) ks \<and> q \<noteq> [] \<and> m = hd (messages n)"
      then obtain ks n where "descend val ks = Some n" "messages n \<noteq> []"
        "q = foldl newPath (newPath parentPath key) ks" "q \<noteq> []" "m = hd (messages n)"
        by blast
      moreover have "map_of ((key, val) # rest) key = Some val" by simp
      ultimately show ?thesis by blast
    qed
  next
    case sub
    from sub(1) have "k \<in> fst ` set rest" by (auto dest: map_of_SomeD intro: rev_image_eqI)
    with wf(5) have "k \<noteq> key" by auto
    with sub(1) have "map_of ((key, val) # rest) k = Some c" by simp
    with sub show ?thesis by blast
  qed
qed

subsection \<open>Joining and splitting paths\<close>

lemma split_on_append_sep:
  "c \<notin> set k \<Longrightarrow> split_on c (k @ c # rest) = k # split_on c rest"
  by (induction k) auto

lemma split_on_plain: "c \<notin> set k \<Longrightarrow> split_on c k = [k]"
  by (induction k) auto

lemma split_on_join:
  "ks \<noteq> [] \<Longrightarrow> \<forall>k \<in> set ks. c \<notin> set k \<Longrightarrow> split_on c (join [c] ks) = ks"
proof (induction "[c]" ks rule: join.induct)
  case 1
  then show ?case by simp
next
  case (2 x)
  then show ?case by (simp add: split_on_plain)
next
  case (3 x y ys)
  then show ?case by (simp add: split_on_append_sep)
qed

lemma join_inject:
  assumes "ks \<noteq> []" "ks' \<noteq> []" "\<forall>k \<in> set ks. c \<notin> set k" "\<forall>k \<in> set ks'. c \<notin> set k"
    and "join [c] ks = join [c] ks'"
  shows "ks = ks'"
proof -
  have "ks = split_on c (join [c] ks)" by (rule split_on_join [OF assms(1) assms(3), symmetric])
  also have "\<dots> = split_on c (join [c] ks')" by (simp only: assms(5))
  also have "\<dots> = ks'" by (rule split_on_join [OF assms(2) assms(4)])
  finally show ?thesis .
qed

lemma foldl_newPath_join:
  "pp \<noteq> [] \<Longrightarrow> foldl newPath pp ks = join ''.'' (pp # ks)"
proof (induction ks arbitrary: pp)
  case Nil
  show ?case by simp
next
  case (Cons k ks)
  from Cons.prems(1) have "newPath pp k \<noteq> []" by (simp add: newPath_def)
  from Cons.IH [OF this]
  have "foldl newPath (newPath pp k) ks = join ''.'' (newPath pp k # ks)" .
  also have "\<dots> = join ''.'' (pp # k # ks)"
    using Cons.prems(1) by (cases ks) (simp_all add: newPath_def)
  finally show ?case by simp
qed

lemma root_path_join:
  "ks \<noteq> [] \<Longrightarrow> hd ks \<noteq> [] \<Longrightarrow> foldl newPath [] ks = join ''.'' ks"
  by (cases ks) (simp_all add: foldl_newPath_join newPath_def)

lemma join_nonempty: "ks \<noteq> [] \<Longrightarrow> hd ks \<noteq> [] \<Longrightarrow> join sep ks \<noteq> []"
  by (induction sep ks rule: join.induct) auto

lemma descend_root_key:
  "named_roots t \<Longrightarrow> descend t ks = Some n \<Longrightarrow> ks \<noteq> [] \<Longrightarrow> hd ks \<noteq> []"
proof (cases ks)
  case Nil
  assume "ks \<noteq> []"
  with Nil show ?thesis by simp
next
  case (Cons k rest)
  assume roots: "named_roots t" and d: "descend t ks = Some n"
  from d Cons obtain c where "map_of (children t) k = Some c"
    by (auto split: option.splits)
  then have "(k, c) \<in> set (children t)" by (rule map_of_SomeD)
  with roots have "k \<noteq> []" by (auto simp: named_roots_def list_all_iff)
  with Cons show ?thesis by simp
qed

lemma descend_dotless_keys:
  "dotless_tree t \<Longrightarrow> descend t ks = Some n \<Longrightarrow> \<forall>k \<in> set ks. CHR ''.'' \<notin> set k"
proof (induction ks arbitrary: t)
  case Nil
  show ?case by simp
next
  case (Cons k ks)
  obtain msgs cs where t: "t = Node msgs cs" by (cases t)
  from Cons.prems(2) t obtain c where c: "map_of cs k = Some c" "descend c ks = Some n"
    by (auto split: option.splits)
  then have "(k, c) \<in> set cs" by (auto dest: map_of_SomeD)
  with Cons.prems(1) t have "dotless_key k" "dotless_tree c"
    using dotless_entries_member [of cs k c] by auto
  with Cons.IH [OF _ c(2)] show ?case by (simp add: dotless_key_def)
qed

section \<open>The claims\<close>

subsection \<open>C1: what the walk records\<close>

text \<open>
  C1, as amended. Let no key of the failure structure, at any depth, have a dot in it, and
  let the keys of the root object be non-empty. Then the walk of \<open>validate\<close>
  (\<open>processErrors\<close> from the root, on the cleared map) records for each node below the
  root that has messages an entry at the node's keys joined with dots, holding the node's
  first message; and it records nothing else: every entry of the result is the first
  message of such a node at its joined path. Empty keys below the root are covered.
\<close>

theorem processErrors_first_message:
  assumes wf: "wf_tree t" and dotless: "dotless_tree t" and roots: "named_roots t"
  shows "(\<forall>ks n. ks \<noteq> [] \<and> descend t ks = Some n \<and> messages n \<noteq> [] \<longrightarrow>
            map_of (processErrors t [] []) (join ''.'' ks) = Some (hd (messages n))) \<and>
         (\<forall>q m. map_of (processErrors t [] []) q = Some m \<longrightarrow>
            (\<exists>ks n. ks \<noteq> [] \<and> descend t ks = Some n \<and> messages n \<noteq> [] \<and>
               q = join ''.'' ks \<and> m = hd (messages n)))"
proof -
  have entry_node: "\<exists>ks n. ks \<noteq> [] \<and> descend t ks = Some n \<and> messages n \<noteq> [] \<and>
                 q = join ''.'' ks \<and> m = hd (messages n)"
    if "map_of (processErrors t [] []) q = Some m" for q m
  proof -
    from processErrors_sound(1) [OF wf that]
    obtain ks n where n: "descend t ks = Some n" "messages n \<noteq> []"
      "q = foldl newPath [] ks" "q \<noteq> []" "m = hd (messages n)"
      by auto
    from n(3) n(4) have ne: "ks \<noteq> []" by auto
    from descend_root_key [OF roots n(1) ne] have "hd ks \<noteq> []" .
    from root_path_join [OF ne this] n ne show ?thesis by auto
  qed
  have node_entry: "map_of (processErrors t [] []) (join ''.'' ks) = Some (hd (messages n))"
    if ks: "ks \<noteq> []" "descend t ks = Some n" "messages n \<noteq> []" for ks n
  proof -
    from descend_root_key [OF roots ks(2) ks(1)] have first: "hd ks \<noteq> []" .
    from descend_dotless_keys [OF dotless ks(2)]
    have pk: "\<forall>k \<in> set ks. CHR ''.'' \<notin> set k" .
    have path: "foldl newPath [] ks = join ''.'' ks" by (rule root_path_join [OF ks(1) first])
    have "join ''.'' ks \<noteq> []" by (rule join_nonempty [OF ks(1) first])
    with processErrors_written [OF wf ks(2) ks(3), of "[]" "[]"] path
    obtain m where m: "map_of (processErrors t [] []) (join ''.'' ks) = Some m" by auto
    from entry_node [OF m] obtain ks' n' where n': "ks' \<noteq> []" "descend t ks' = Some n'"
      "join ''.'' ks = join ''.'' ks'" "m = hd (messages n')"
      by auto
    from descend_dotless_keys [OF dotless n'(2)]
    have "\<forall>k \<in> set ks'. CHR ''.'' \<notin> set k" .
    from join_inject [OF ks(1) n'(1) pk this] n'(3) have "ks = ks'" by simp
    with ks(2) n'(2) n'(4) m show ?thesis by simp
  qed
  from entry_node node_entry show ?thesis by blast
qed

text \<open>
  The theorem at the structure of a failing nested field, which receives the first of the
  two messages of its node at \<open>address.aa.zipCode\<close>, and at a structure with an empty key
  below the root, whose node is recorded at \<open>a..b\<close>.
\<close>

theorem processErrors_first_message_witness:
  "wf_tree (Node [] [(''address'', Node [] [(''aa'', Node [] [(''zipCode'',
       Node [''Zip code must have 6 digits'', ''Zip code is required''] [])])]),
     (''age'', Node [''Must be at least 18''] [])]) \<and>
   dotless_tree (Node [] [(''address'', Node [] [(''aa'', Node [] [(''zipCode'',
       Node [''Zip code must have 6 digits'', ''Zip code is required''] [])])]),
     (''age'', Node [''Must be at least 18''] [])]) \<and>
   named_roots (Node [] [(''address'', Node [] [(''aa'', Node [] [(''zipCode'',
       Node [''Zip code must have 6 digits'', ''Zip code is required''] [])])]),
     (''age'', Node [''Must be at least 18''] [])]) \<and>
   map_of (processErrors (Node [] [(''address'', Node [] [(''aa'', Node [] [(''zipCode'',
       Node [''Zip code must have 6 digits'', ''Zip code is required''] [])])]),
     (''age'', Node [''Must be at least 18''] [])]) [] []) ''address.aa.zipCode''
     = Some ''Zip code must have 6 digits'' \<and>
   wf_tree (Node [] [(''a'', Node [] [([], Node [] [(''b'', Node [''Required''] [])])])]) \<and>
   dotless_tree (Node [] [(''a'', Node [] [([], Node [] [(''b'', Node [''Required''] [])])])]) \<and>
   named_roots (Node [] [(''a'', Node [] [([], Node [] [(''b'', Node [''Required''] [])])])]) \<and>
   map_of (processErrors
             (Node [] [(''a'', Node [] [([], Node [] [(''b'', Node [''Required''] [])])])]) [] [])
     ''a..b'' = Some ''Required''"
proof -
  let ?leaf = "Node [''Zip code must have 6 digits'', ''Zip code is required''] []"
  let ?t = "Node [] [(''address'', Node [] [(''aa'', Node [] [(''zipCode'', ?leaf)])]),
                     (''age'', Node [''Must be at least 18''] [])]"
  let ?leaf' = "Node [''Required''] []"
  let ?t' = "Node [] [(''a'', Node [] [([], Node [] [(''b'', ?leaf')])])]"
  have wf: "wf_tree ?t" by simp
  have dl: "dotless_tree ?t" by (simp add: dotless_key_def)
  have nr: "named_roots ?t" by (simp add: named_roots_def)
  have d: "[''address'', ''aa'', ''zipCode''] \<noteq> [] \<and>
           descend ?t [''address'', ''aa'', ''zipCode''] = Some ?leaf \<and> messages ?leaf \<noteq> []"
    by simp
  from processErrors_first_message [OF wf dl nr] d
  have "map_of (processErrors ?t [] []) (join ''.'' [''address'', ''aa'', ''zipCode''])
          = Some (hd (messages ?leaf))"
    by blast
  then have a: "map_of (processErrors ?t [] []) ''address.aa.zipCode''
                  = Some ''Zip code must have 6 digits''"
    by simp
  have wf': "wf_tree ?t'" by simp
  have dl': "dotless_tree ?t'" by (simp add: dotless_key_def)
  have nr': "named_roots ?t'" by (simp add: named_roots_def)
  have d': "[''a'', [], ''b''] \<noteq> [] \<and> descend ?t' [''a'', [], ''b''] = Some ?leaf' \<and>
            messages ?leaf' \<noteq> []"
    by simp
  from processErrors_first_message [OF wf' dl' nr'] d'
  have "map_of (processErrors ?t' [] []) (join ''.'' [''a'', [], ''b'']) = Some (hd (messages ?leaf'))"
    by blast
  then have b: "map_of (processErrors ?t' [] []) ''a..b'' = Some ''Required''"
    by simp
  from wf dl nr a wf' dl' nr' b show ?thesis by (intro conjI)
qed

text \<open>
  C1 as stated fails on two kinds of keys. A key with a dot in it shares its joined path
  with a nested node, and the node walked later wins: the node under the key \<open>a.b\<close> has
  the first message \<open>first\<close>, yet the entry at \<open>a.b\<close> is \<open>second\<close>. Under an empty key of
  the root object the path string is still empty when the child is walked, so the key
  leaves no trace in the path: the node with the keys \<open>""\<close>, \<open>zip\<close> has the joined path
  \<open>.zip\<close>, where nothing is recorded. (\<open>validateField\<close> and the block after the walk split
  and join such a path with its leading dot.)
\<close>

theorem processErrors_first_message_counterexample:
  "wf_tree (Node [] [(''a.b'', Node [''first''] []), (''a'', Node [] [(''b'', Node [''second''] [])])]) \<and>
   descend (Node [] [(''a.b'', Node [''first''] []), (''a'', Node [] [(''b'', Node [''second''] [])])])
     [''a.b''] = Some (Node [''first''] []) \<and>
   messages (Node [''first''] []) \<noteq> [] \<and>
   map_of (processErrors
             (Node [] [(''a.b'', Node [''first''] []), (''a'', Node [] [(''b'', Node [''second''] [])])])
             [] [])
     (join ''.'' [''a.b'']) \<noteq> Some (hd (messages (Node [''first''] []))) \<and>
   wf_tree (Node [] [([], Node [] [(''zip'', Node [''Required''] [])])]) \<and>
   descend (Node [] [([], Node [] [(''zip'', Node [''Required''] [])])]) [[], ''zip'']
     = Some (Node [''Required''] []) \<and>
   messages (Node [''Required''] []) \<noteq> [] \<and>
   map_of (processErrors (Node [] [([], Node [] [(''zip'', Node [''Required''] [])])]) [] [])
     (join ''.'' [[], ''zip'']) \<noteq> Some (hd (messages (Node [''Required''] [])))"
  by (simp add: newPath_def)

subsection \<open>C2: the root's message goes to the first issue with a path\<close>

text \<open>
  C2. Let the validation fail with messages at the root. If the issue \<open>i\<close> is the first one
  of the issues whose path is not empty, then after \<open>validate\<close> the entry at the path of
  \<open>i\<close>, joined with dots, is the root's first message. If every issue has the empty path,
  the map after \<open>validate\<close> is what the walk yields for the same structure without the
  root's messages: nothing stands for them.
\<close>

theorem validate_root_message:
  assumes "schema (form s) = Failure t issues" and "messages t \<noteq> []"
  shows "(\<forall>pre i post. issues = pre @ i # post \<and> (\<forall>j \<in> set pre. path j = []) \<and> path i \<noteq> [] \<longrightarrow>
            map_of (errors (snd (validate schema s))) (join_path (path i)) = Some (hd (messages t))) \<and>
         ((\<forall>j \<in> set issues. path j = []) \<longrightarrow>
            errors (snd (validate schema s)) = processErrors (Node [] (children t)) [] [])"
proof (intro conjI allI impI)
  fix pre i post
  assume h: "issues = pre @ i # post \<and> (\<forall>j \<in> set pre. path j = []) \<and> path i \<noteq> []"
  then have "find (\<lambda>i. 0 < length (path i)) issues = Some i"
    using find_first_match [of pre "\<lambda>i. 0 < length (path i)" i post] by simp
  with assms h
  show "map_of (errors (snd (validate schema s))) (join_path (path i)) = Some (hd (messages t))"
    by (simp add: validate_failure refineErrors_def update_conv')
next
  assume "\<forall>j \<in> set issues. path j = []"
  then have "find (\<lambda>i. 0 < length (path i)) issues = None"
    using find_no_match [of issues "\<lambda>i. 0 < length (path i)"] by simp
  with assms processErrors_root [of t "[]"]
  show "errors (snd (validate schema s)) = processErrors (Node [] (children t)) [] []"
    by (simp add: validate_failure refineErrors_def)
qed

text \<open>
  The theorem at a refinement over the whole object that reports the path
  \<open>["confirmPassword"]\<close>, and at one that reports the empty path only.
\<close>

theorem validate_root_message_witness:
  "messages (Node [''Passwords do not match''] []) \<noteq> [] \<and>
   map_of (errors (snd (validate
      (\<lambda>v. Failure (Node [''Passwords do not match''] [])
             [\<lparr>path = [], message = ''Invalid input''\<rparr>,
              \<lparr>path = [PKey ''confirmPassword''], message = ''Passwords do not match''\<rparr>])
      \<lparr>form = [(''password'', ''abc''), (''confirmPassword'', ''abd'')],
        errors = [(''name'', ''Name needs 2 characters'')], isSubmitting = False\<rparr>)))
     ''confirmPassword'' = Some ''Passwords do not match'' \<and>
   errors (snd (validate
      (\<lambda>v. Failure (Node [''Passwords do not match''] [])
             [\<lparr>path = [], message = ''Passwords do not match''\<rparr>])
      \<lparr>form = [(''password'', ''abc''), (''confirmPassword'', ''abd'')],
        errors = [(''name'', ''Name needs 2 characters'')], isSubmitting = False\<rparr>)) = []"
proof -
  let ?t = "Node [''Passwords do not match''] []"
  let ?i = "\<lparr>path = [PKey ''confirmPassword''], message = ''Passwords do not match''\<rparr>"
  let ?pre = "[\<lparr>path = [], message = ''Invalid input''\<rparr>]"
  let ?only = "[\<lparr>path = [], message = ''Passwords do not match''\<rparr>]"
  let ?s = "\<lparr>form = [(''password'', ''abc''), (''confirmPassword'', ''abd'')],
             errors = [(''name'', ''Name needs 2 characters'')], isSubmitting = False\<rparr>"
  have m: "messages ?t \<noteq> []" by simp
  have f1: "(\<lambda>v. Failure ?t (?pre @ ?i # [])) (form ?s) = Failure ?t (?pre @ ?i # [])" by simp
  have f2: "(\<lambda>v. Failure ?t ?only) (form ?s) = Failure ?t ?only" by simp
  have "?pre @ ?i # [] = ?pre @ ?i # [] \<and> (\<forall>j \<in> set ?pre. path j = []) \<and> path ?i \<noteq> []"
    by simp
  with validate_root_message [OF f1 m]
  have "map_of (errors (snd (validate (\<lambda>v. Failure ?t (?pre @ ?i # [])) ?s))) (join_path (path ?i))
          = Some (hd (messages ?t))"
    by blast
  then have a: "map_of (errors (snd (validate (\<lambda>v. Failure ?t (?pre @ ?i # [])) ?s)))
                  ''confirmPassword'' = Some ''Passwords do not match''"
    by (simp add: join_path_def)
  have "\<forall>j \<in> set ?only. path j = []" by simp
  with validate_root_message [OF f2 m]
  have "errors (snd (validate (\<lambda>v. Failure ?t ?only) ?s)) = processErrors (Node [] (children ?t)) [] []"
    by blast
  then have b: "errors (snd (validate (\<lambda>v. Failure ?t ?only) ?s)) = []" by simp
  from m a b show ?thesis by simp
qed

subsection \<open>C3: \<open>validateField\<close> touches one key\<close>

text \<open>
  C3. For every schema, state and path \<open>p\<close>, \<open>validateField(p)\<close> leaves the entry of every
  key other than \<open>p\<close> as it was: present with the same message, or absent.
\<close>

theorem validateField_frame:
  "k \<noteq> p \<Longrightarrow> map_of (errors (snd (validateField schema p s))) k = map_of (errors s) k"
  by (simp add: validateField_def update_conv' delete_conv'
      split: parse_result.splits option.splits)

theorem validateField_frame_witness:
  "''email'' \<noteq> ''name'' \<and>
   map_of (errors (snd (validateField
      (\<lambda>v. Failure (Node [] [(''name'', Node [''Name needs 2 characters''] [])])
             [\<lparr>path = [PKey ''name''], message = ''Name needs 2 characters''\<rparr>])
      ''name''
      \<lparr>form = [(''name'', ''A''), (''email'', ''a@b.c'')],
        errors = [(''email'', ''Invalid email'')], isSubmitting = False\<rparr>))) ''email''
     = Some ''Invalid email''"
proof -
  let ?schema = "\<lambda>v :: (string \<times> string) list.
                   Failure (Node [] [(''name'', Node [''Name needs 2 characters''] [])])
                     [\<lparr>path = [PKey ''name''], message = ''Name needs 2 characters''\<rparr>]"
  let ?s = "\<lparr>form = [(''name'', ''A''), (''email'', ''a@b.c'')],
             errors = [(''email'', ''Invalid email'')], isSubmitting = False\<rparr>"
  have ne: "''email'' \<noteq> ''name''" by simp
  from validateField_frame [OF ne, of ?schema ?s]
  have "map_of (errors (snd (validateField ?schema ''name'' ?s))) ''email'' = Some ''Invalid email''"
    by simp
  with ne show ?thesis by blast
qed

subsection \<open>C4: the handler runs only after a successful validation\<close>

text \<open>
  C4. When \<open>validate\<close> reports failure, the action calls the handler not at all and leaves
  \<open>isSubmitting\<close> as it was. When \<open>validate\<close> reports success, the action calls the handler
  exactly once, with the copy of the current form value.
\<close>

theorem handleSubmit_gating:
  "(\<not> fst (validate schema (fstate w)) \<longrightarrow>
      calls (snd (handleSubmit schema onSubmit w)) = calls w \<and>
      isSubmitting (fstate (snd (handleSubmit schema onSubmit w))) = isSubmitting (fstate w)) \<and>
   (fst (validate schema (fstate w)) \<longrightarrow>
      calls (snd (handleSubmit schema onSubmit w)) = calls w @ [snapshot (form (fstate w))])"
  by (auto simp add: handleSubmit_def tryCatchFinally_def submitBody_def submitCatch_def
      submitFinally_def validate_def Let_def
      split: parse_result.splits option.splits prod.splits)

theorem handleSubmit_gating_witness:
  "\<not> fst (validate
      (\<lambda>v. if map_of v ''name'' = Some ''A'' then
             Failure (Node [] [(''name'', Node [''Name needs 2 characters''] [])])
               [\<lparr>path = [PKey ''name''], message = ''Name needs 2 characters''\<rparr>]
           else Success)
      \<lparr>form = [(''name'', ''A'')], errors = [], isSubmitting = False\<rparr>) \<and>
   calls (snd (handleSubmit
      (\<lambda>v. if map_of v ''name'' = Some ''A'' then
             Failure (Node [] [(''name'', Node [''Name needs 2 characters''] [])])
               [\<lparr>path = [PKey ''name''], message = ''Name needs 2 characters''\<rparr>]
           else Success)
      (\<lambda>v s. (None :: string option, s))
      \<lparr>fstate = \<lparr>form = [(''name'', ''A'')], errors = [], isSubmitting = False\<rparr>,
        calls = [], console = []\<rparr>)) = [] \<and>
   fst (validate
      (\<lambda>v. if map_of v ''name'' = Some ''A'' then
             Failure (Node [] [(''name'', Node [''Name needs 2 characters''] [])])
               [\<lparr>path = [PKey ''name''], message = ''Name needs 2 characters''\<rparr>]
           else Success)
      \<lparr>form = [(''name'', ''Ann'')], errors = [], isSubmitting = False\<rparr>) \<and>
   calls (snd (handleSubmit
      (\<lambda>v. if map_of v ''name'' = Some ''A'' then
             Failure (Node [] [(''name'', Node [''Name needs 2 characters''] [])])
               [\<lparr>path = [PKey ''name''], message = ''Name needs 2 characters''\<rparr>]
           else Success)
      (\<lambda>v s. (None :: string option, s))
      \<lparr>fstate = \<lparr>form = [(''name'', ''Ann'')], errors = [], isSubmitting = False\<rparr>,
        calls = [], console = []\<rparr>)) = [[(''name'', ''Ann'')]]"
proof -
  let ?schema = "\<lambda>v. if map_of v ''name'' = Some ''A'' then
             Failure (Node [] [(''name'', Node [''Name needs 2 characters''] [])])
               [\<lparr>path = [PKey ''name''], message = ''Name needs 2 characters''\<rparr>]
           else Success"
  let ?h = "\<lambda>(v :: (string \<times> string) list) (s :: (string \<times> string) list form_state).
              (None :: string option, s)"
  let ?sbad = "\<lparr>form = [(''name'', ''A'')], errors = [], isSubmitting = False\<rparr>"
  let ?sgood = "\<lparr>form = [(''name'', ''Ann'')], errors = [], isSubmitting = False\<rparr>"
  let ?bad = "\<lparr>fstate = ?sbad, calls = [], console = [] :: string list\<rparr>"
  let ?good = "\<lparr>fstate = ?sgood, calls = [], console = [] :: string list\<rparr>"
  have bad: "\<not> fst (validate ?schema ?sbad)"
    by (simp add: validate_def Let_def)
  have good: "fst (validate ?schema ?sgood)"
    by (simp add: validate_def Let_def)
  from bad have "\<not> fst (validate ?schema (fstate ?bad))" by simp
  with handleSubmit_gating [of ?schema ?bad ?h]
  have "calls (snd (handleSubmit ?schema ?h ?bad)) = calls ?bad" by blast
  then have a: "calls (snd (handleSubmit ?schema ?h ?bad)) = []" by simp
  from good have "fst (validate ?schema (fstate ?good))" by simp
  with handleSubmit_gating [of ?schema ?good ?h]
  have "calls (snd (handleSubmit ?schema ?h ?good)) = calls ?good @ [snapshot (form (fstate ?good))]"
    by blast
  then have b: "calls (snd (handleSubmit ?schema ?h ?good)) = [[(''name'', ''Ann'')]]"
    by (simp add: snapshot_def)
  from bad a good b show ?thesis by simp
qed

subsection \<open>C5: the outcomes of \<open>validateField\<close>\<close>

text \<open>
  C5. Let \<open>p\<close> be split at its dots. When the validation fails and some segment is no key of
  the node that the segments before it lead to, \<open>validateField(p)\<close> returns true and the
  map has no entry at \<open>p\<close> afterwards. When the validation fails and the segments lead to
  a node with messages, it returns false and the entry at \<open>p\<close> is that node's first
  message. When they lead to a node without messages, and when the validation succeeds,
  it returns true and the map has no entry at \<open>p\<close> afterwards. Every case yields a result:
  the model has no failing branch, as the source has no throwing one.
\<close>

theorem validateField_outcome:
  "(schema (form s) = Failure t issues \<and> split_on (CHR ''.'') p = pre @ part # post \<and>
      descend t pre = Some n \<and> map_of (children n) part = None \<longrightarrow>
      fst (validateField schema p s) \<and> map_of (errors (snd (validateField schema p s))) p = None) \<and>
   (schema (form s) = Failure t issues \<and> descend t (split_on (CHR ''.'') p) = Some n \<and>
      messages n \<noteq> [] \<longrightarrow>
      \<not> fst (validateField schema p s) \<and>
      map_of (errors (snd (validateField schema p s))) p = Some (hd (messages n))) \<and>
   (schema (form s) = Failure t issues \<and> descend t (split_on (CHR ''.'') p) = Some n \<and>
      messages n = [] \<longrightarrow>
      fst (validateField schema p s) \<and> map_of (errors (snd (validateField schema p s))) p = None) \<and>
   (schema (form s) = Success \<longrightarrow>
      fst (validateField schema p s) \<and> map_of (errors (snd (validateField schema p s))) p = None)"
proof (intro conjI impI)
  assume h: "schema (form s) = Failure t issues \<and> split_on (CHR ''.'') p = pre @ part # post \<and>
      descend t pre = Some n \<and> map_of (children n) part = None"
  then have "descend t (split_on (CHR ''.'') p) = None"
    using descend_absent [of t pre n part post] by simp
  with h show "fst (validateField schema p s)"
    and "map_of (errors (snd (validateField schema p s))) p = None"
    by (simp_all add: validateField_def delete_conv')
qed (simp_all add: validateField_def delete_conv' update_conv')

theorem validateField_outcome_witness:
  "fst (validateField
      (\<lambda>v. Failure (Node [] [(''address'', Node [] [(''city'', Node [''City needs 2 characters''] [])])])
             [\<lparr>path = [PKey ''address'', PKey ''city''], message = ''City needs 2 characters''\<rparr>])
      ''address.aa.zipCode''
      \<lparr>form = [(''city'', ''X'')], errors = [(''address.aa.zipCode'', ''Invalid zip code'')],
        isSubmitting = False\<rparr>) \<and>
   map_of (errors (snd (validateField
      (\<lambda>v. Failure (Node [] [(''address'', Node [] [(''city'', Node [''City needs 2 characters''] [])])])
             [\<lparr>path = [PKey ''address'', PKey ''city''], message = ''City needs 2 characters''\<rparr>])
      ''address.aa.zipCode''
      \<lparr>form = [(''city'', ''X'')], errors = [(''address.aa.zipCode'', ''Invalid zip code'')],
        isSubmitting = False\<rparr>))) ''address.aa.zipCode'' = None \<and>
   \<not> fst (validateField
      (\<lambda>v. Failure (Node [] [(''address'', Node [] [(''city'', Node [''City needs 2 characters''] [])])])
             [\<lparr>path = [PKey ''address'', PKey ''city''], message = ''City needs 2 characters''\<rparr>])
      ''address.city''
      \<lparr>form = [(''city'', ''X'')], errors = [(''address.aa.zipCode'', ''Invalid zip code'')],
        isSubmitting = False\<rparr>) \<and>
   map_of (errors (snd (validateField
      (\<lambda>v. Failure (Node [] [(''address'', Node [] [(''city'', Node [''City needs 2 characters''] [])])])
             [\<lparr>path = [PKey ''address'', PKey ''city''], message = ''City needs 2 characters''\<rparr>])
      ''address.city''
      \<lparr>form = [(''city'', ''X'')], errors = [(''address.aa.zipCode'', ''Invalid zip code'')],
        isSubmitting = False\<rparr>))) ''address.city'' = Some ''City needs 2 characters'' \<and>
   fst (validateField (\<lambda>v. Success) ''address.city''
      \<lparr>form = [(''city'', ''Oslo'')], errors = [(''address.city'', ''City needs 2 characters'')],
        isSubmitting = False\<rparr>) \<and>
   map_of (errors (snd (validateField (\<lambda>v. Success) ''address.city''
      \<lparr>form = [(''city'', ''Oslo'')], errors = [(''address.city'', ''City needs 2 characters'')],
        isSubmitting = False\<rparr>))) ''address.city'' = None"
proof -
  let ?leaf = "Node [''City needs 2 characters''] []"
  let ?addr = "Node [] [(''city'', ?leaf)]"
  let ?t = "Node [] [(''address'', ?addr)]"
  let ?issues = "[\<lparr>path = [PKey ''address'', PKey ''city''], message = ''City needs 2 characters''\<rparr>]"
  let ?s = "\<lparr>form = [(''city'', ''X'')], errors = [(''address.aa.zipCode'', ''Invalid zip code'')],
             isSubmitting = False\<rparr>"
  let ?s' = "\<lparr>form = [(''city'', ''Oslo'')], errors = [(''address.city'', ''City needs 2 characters'')],
              isSubmitting = False\<rparr>"
  have absent: "(\<lambda>v. Failure ?t ?issues) (form ?s) = Failure ?t ?issues \<and>
      split_on (CHR ''.'') ''address.aa.zipCode'' = [''address''] @ ''aa'' # [''zipCode''] \<and>
      descend ?t [''address''] = Some ?addr \<and> map_of (children ?addr) ''aa'' = None"
    by simp
  have found: "(\<lambda>v. Failure ?t ?issues) (form ?s) = Failure ?t ?issues \<and>
      descend ?t (split_on (CHR ''.'') ''address.city'') = Some ?leaf \<and> messages ?leaf \<noteq> []"
    by simp
  have ok: "(\<lambda>v. Success) (form ?s') = Success" by simp
  from validateField_outcome [where schema = "\<lambda>v. Failure ?t ?issues" and s = ?s and t = ?t
      and issues = ?issues and p = "''address.aa.zipCode''" and pre = "[''address'']"
      and part = "''aa''" and post = "[''zipCode'']" and n = ?addr] absent
  have a: "fst (validateField (\<lambda>v. Failure ?t ?issues) ''address.aa.zipCode'' ?s) \<and>
           map_of (errors (snd (validateField (\<lambda>v. Failure ?t ?issues) ''address.aa.zipCode'' ?s)))
             ''address.aa.zipCode'' = None"
    by blast
  from validateField_outcome [where schema = "\<lambda>v. Failure ?t ?issues" and s = ?s and t = ?t
      and issues = ?issues and p = "''address.city''" and n = ?leaf] found
  have "\<not> fst (validateField (\<lambda>v. Failure ?t ?issues) ''address.city'' ?s) \<and>
        map_of (errors (snd (validateField (\<lambda>v. Failure ?t ?issues) ''address.city'' ?s)))
          ''address.city'' = Some (hd (messages ?leaf))"
    by blast
  then have b: "\<not> fst (validateField (\<lambda>v. Failure ?t ?issues) ''address.city'' ?s) \<and>
        map_of (errors (snd (validateField (\<lambda>v. Failure ?t ?issues) ''address.city'' ?s)))
          ''address.city'' = Some ''City needs 2 characters''"
    by simp
  from validateField_outcome [where schema = "\<lambda>v. Success" and s = ?s'
      and p = "''address.city''"] ok
  have c: "fst (validateField (\<lambda>v. Success) ''address.city'' ?s') \<and>
           map_of (errors (snd (validateField (\<lambda>v. Success) ''address.city'' ?s')))
             ''address.city'' = None"
    by blast
  from a b c show ?thesis by blast
qed

subsection \<open>C6: a failing handler\<close>

text \<open>
  C6. The promise of the action is never rejected, whatever the handler does. After a
  successful validation \<open>isSubmitting\<close> is false when the action has ended, whether the
  handler returned or threw; and what the handler threw has been handed to
  \<open>console.error\<close>. The handler runs on the validated state with \<open>isSubmitting\<close> set.
\<close>

theorem handleSubmit_handler_failure:
  "fst (handleSubmit schema onSubmit w) = None \<and>
   (fst (validate schema (fstate w)) \<longrightarrow>
      \<not> isSubmitting (fstate (snd (handleSubmit schema onSubmit w))) \<and>
      (\<forall>e s'. onSubmit (snapshot (form (fstate w)))
                ((snd (validate schema (fstate w)))\<lparr>isSubmitting := True\<rparr>) = (Some e, s') \<longrightarrow>
         console (snd (handleSubmit schema onSubmit w)) = console w @ [e]))"
  by (auto simp add: handleSubmit_def tryCatchFinally_def submitBody_def submitCatch_def
      submitFinally_def validate_def Let_def
      split: parse_result.splits option.splits prod.splits)

theorem handleSubmit_handler_failure_witness:
  "fst (validate (\<lambda>v. Success)
      \<lparr>form = [(''name'', ''Ann'')], errors = [], isSubmitting = False\<rparr>) \<and>
   fst (handleSubmit (\<lambda>v. Success) (\<lambda>v s. (Some ''Network error'', s))
      \<lparr>fstate = \<lparr>form = [(''name'', ''Ann'')], errors = [], isSubmitting = False\<rparr>,
        calls = [], console = []\<rparr>) = None \<and>
   \<not> isSubmitting (fstate (snd (handleSubmit (\<lambda>v. Success) (\<lambda>v s. (Some ''Network error'', s))
      \<lparr>fstate = \<lparr>form = [(''name'', ''Ann'')], errors = [], isSubmitting = False\<rparr>,
        calls = [], console = []\<rparr>))) \<and>
   console (snd (handleSubmit (\<lambda>v. Success) (\<lambda>v s. (Some ''Network error'', s))
      \<lparr>fstate = \<lparr>form = [(''name'', ''Ann'')], errors = [], isSubmitting = False\<rparr>,
        calls = [], console = []\<rparr>)) = [''Network error'']"
proof -
  let ?schema = "\<lambda>v :: (string \<times> string) list. Success"
  let ?h = "\<lambda>(v :: (string \<times> string) list) (s :: (string \<times> string) list form_state).
              (Some ''Network error'', s)"
  let ?w = "\<lparr>fstate = \<lparr>form = [(''name'', ''Ann'')], errors = [], isSubmitting = False\<rparr>,
             calls = [], console = [] :: string list\<rparr>"
  have ok: "fst (validate ?schema (fstate ?w))" by (simp add: validate_def Let_def)
  have thrown: "?h (snapshot (form (fstate ?w)))
                  ((snd (validate ?schema (fstate ?w)))\<lparr>isSubmitting := True\<rparr>)
                = (Some ''Network error'', (snd (validate ?schema (fstate ?w)))\<lparr>isSubmitting := True\<rparr>)"
    by simp
  note inst = handleSubmit_handler_failure [of ?schema ?h ?w]
  from inst have a: "fst (handleSubmit ?schema ?h ?w) = None" by blast
  from inst ok have b: "\<not> isSubmitting (fstate (snd (handleSubmit ?schema ?h ?w)))" by blast
  from inst ok thrown have "console (snd (handleSubmit ?schema ?h ?w)) = console ?w @ [''Network error'']"
    by blast
  then have c: "console (snd (handleSubmit ?schema ?h ?w)) = [''Network error'']" by simp
  from ok a b c show ?thesis by simp
qed

subsection \<open>C7: \<open>validate\<close> rebuilds the map\<close>

text \<open>
  C7. \<open>validate\<close> returns true exactly when the schema accepts the current form value.
  The map it leaves does not depend on the map it found: it is the map that \<open>validate\<close>
  leaves when started on the empty map. After a failed validation the map is what the
  walk and the block after it make of the new failure structure and issues, begun on
  the empty map, so no earlier entry is left and the new ones are there. After a call
  that returned true the map is empty.
\<close>

theorem validate_replaces_errors:
  "fst (validate schema s) = (schema (form s) = Success) \<and>
   errors (snd (validate schema s)) = errors (snd (validate schema (s\<lparr>errors := []\<rparr>))) \<and>
   (\<forall>t issues. schema (form s) = Failure t issues \<longrightarrow>
      errors (snd (validate schema s)) = refineErrors t issues (processErrors t [] [])) \<and>
   (fst (validate schema s) \<longrightarrow> errors (snd (validate schema s)) = [])"
  by (simp add: validate_def Let_def clear_errors_empty split: parse_result.splits)

text \<open>
  The theorem at a form whose \<open>age\<close> is accepted, and at one whose \<open>age\<close> is refused while
  the map still holds an entry for \<open>email\<close>: that entry is gone and the one for \<open>age\<close> is
  there.
\<close>

theorem validate_replaces_errors_witness:
  "fst (validate (\<lambda>v. if map_of v ''age'' = Some ''10'' then
                          Failure (Node [] [(''age'', Node [''Must be at least 18''] [])])
                            [\<lparr>path = [PKey ''age''], message = ''Must be at least 18''\<rparr>]
                        else Success)
      \<lparr>form = [(''age'', ''30'')], errors = [(''age'', ''Must be at least 18'')],
        isSubmitting = False\<rparr>) \<and>
   errors (snd (validate (\<lambda>v. if map_of v ''age'' = Some ''10'' then
                          Failure (Node [] [(''age'', Node [''Must be at least 18''] [])])
                            [\<lparr>path = [PKey ''age''], message = ''Must be at least 18''\<rparr>]
                        else Success)
      \<lparr>form = [(''age'', ''30'')], errors = [(''age'', ''Must be at least 18'')],
        isSubmitting = False\<rparr>)) = [] \<and>
   \<not> fst (validate (\<lambda>v. if map_of v ''age'' = Some ''10'' then
                          Failure (Node [] [(''age'', Node [''Must be at least 18''] [])])
                            [\<lparr>path = [PKey ''age''], message = ''Must be at least 18''\<rparr>]
                        else Success)
      \<lparr>form = [(''age'', ''10'')], errors = [(''email'', ''Invalid email'')],
        isSubmitting = False\<rparr>) \<and>
   errors (snd (validate (\<lambda>v. if map_of v ''age'' = Some ''10'' then
                          Failure (Node [] [(''age'', Node [''Must be at least 18''] [])])
                            [\<lparr>path = [PKey ''age''], message = ''Must be at least 18''\<rparr>]
                        else Success)
      \<lparr>form = [(''age'', ''10'')], errors = [(''email'', ''Invalid email'')],
        isSubmitting = False\<rparr>)) = [(''age'', ''Must be at least 18'')]"
proof -
  let ?t = "Node [] [(''age'', Node [''Must be at least 18''] [])]"
  let ?issues = "[\<lparr>path = [PKey ''age''], message = ''Must be at least 18''\<rparr>]"
  let ?schema = "\<lambda>v. if map_of v ''age'' = Some ''10'' then Failure ?t ?issues else Success"
  let ?ok = "\<lparr>form = [(''age'', ''30'')], errors = [(''age'', ''Must be at least 18'')],
              isSubmitting = False\<rparr>"
  let ?bad = "\<lparr>form = [(''age'', ''10'')], errors = [(''email'', ''Invalid email'')],
               isSubmitting = False\<rparr>"
  have accepted: "?schema (form ?ok) = Success" by simp
  have refused: "?schema (form ?bad) = Failure ?t ?issues" by simp
  from validate_replaces_errors [of ?schema ?ok] accepted
  have a: "fst (validate ?schema ?ok)" and b: "errors (snd (validate ?schema ?ok)) = []"
    by blast+
  from validate_replaces_errors [of ?schema ?bad] refused
  have c: "\<not> fst (validate ?schema ?bad)" by simp
  from validate_replaces_errors [of ?schema ?bad] refused
  have "errors (snd (validate ?schema ?bad)) = refineErrors ?t ?issues (processErrors ?t [] [])"
    by blast
  then have d: "errors (snd (validate ?schema ?bad)) = [(''age'', ''Must be at least 18'')]"
    by (simp add: refineErrors_def newPath_def)
  from a b c d show ?thesis by (intro conjI)
qed

subsection \<open>C8: \<open>validate\<close> twice\<close>

text \<open>
  C8. A second call of \<open>validate\<close> right after the first, on the state the first call left,
  returns what the first returned and leaves the state, the map of errors in it, as the
  first call left it. The schema is a function of the form value: it answers the same
  value in the same way.
\<close>

theorem validate_idempotent:
  "validate schema (snd (validate schema s)) = validate schema s"
  by (simp add: validate_def Let_def clear_errors_empty split: parse_result.splits)

subsection \<open>C9: the form value is only read\<close>

text \<open>
  C9. Neither \<open>validate\<close> nor \<open>validateField\<close> changes the form value.
\<close>

theorem validation_keeps_form:
  "form (snd (validate schema s)) = form s \<and> form (snd (validateField schema p s)) = form s"
  by (simp add: validate_def validateField_def Let_def split: parse_result.splits option.splits)

subsection \<open>C10: the root's message replaces a field's message\<close>

text \<open>
  C10. Let the validation fail with messages at the root, let \<open>i\<close> be the first issue with a
  non-empty path, and let the walk have recorded a message \<open>m\<close> at the joined path of
  \<open>i\<close>. Then the map after \<open>validate\<close> is the walk's map with that entry overwritten by the
  root's first message: the message \<open>m\<close> of the field is gone, whatever field it is.
\<close>

theorem root_message_overwrites:
  assumes "schema (form s) = Failure t issues" and "messages t \<noteq> []"
    and "issues = pre @ i # post" and "\<forall>j \<in> set pre. path j = []" and "path i \<noteq> []"
    and "map_of (processErrors t [] []) (join_path (path i)) = Some m"
  shows "errors (snd (validate schema s)) =
           AList.update (join_path (path i)) (hd (messages t)) (processErrors t [] []) \<and>
         map_of (errors (snd (validate schema s))) (join_path (path i)) = Some (hd (messages t))"
proof -
  from assms(3-5) have "find (\<lambda>i. 0 < length (path i)) issues = Some i"
    using find_first_match [of pre "\<lambda>i. 0 < length (path i)" i post] by simp
  with assms(1,2,5) show ?thesis
    by (simp add: validate_failure refineErrors_def update_conv')
qed

text \<open>
  The theorem at a form whose field \<open>name\<close> fails on its own while the refinement, which
  compares the two passwords, reports the empty path: the entry at \<open>name\<close> holds the
  refinement's message.
\<close>

theorem root_message_overwrites_witness:
  "map_of (processErrors (Node [''Passwords do not match''] [(''name'', Node [''Name needs 2 characters''] [])]) [] [])
     ''name'' = Some ''Name needs 2 characters'' \<and>
   map_of (errors (snd (validate
      (\<lambda>v. Failure (Node [''Passwords do not match''] [(''name'', Node [''Name needs 2 characters''] [])])
             [\<lparr>path = [PKey ''name''], message = ''Name needs 2 characters''\<rparr>,
              \<lparr>path = [], message = ''Passwords do not match''\<rparr>])
      \<lparr>form = [(''name'', ''A''), (''password'', ''abc''), (''confirmPassword'', ''abd'')],
        errors = [], isSubmitting = False\<rparr>)))
     ''name'' = Some ''Passwords do not match''"
proof -
  let ?t = "Node [''Passwords do not match''] [(''name'', Node [''Name needs 2 characters''] [])]"
  let ?i = "\<lparr>path = [PKey ''name''], message = ''Name needs 2 characters''\<rparr>"
  let ?post = "[\<lparr>path = [], message = ''Passwords do not match''\<rparr>]"
  let ?s = "\<lparr>form = [(''name'', ''A''), (''password'', ''abc''), (''confirmPassword'', ''abd'')],
             errors = [], isSubmitting = False\<rparr>"
  have f: "(\<lambda>v. Failure ?t ([] @ ?i # ?post)) (form ?s) = Failure ?t ([] @ ?i # ?post)" by simp
  have m: "messages ?t \<noteq> []" by simp
  have pre: "\<forall>j \<in> set []. path j = []" by simp
  have i: "path ?i \<noteq> []" by simp
  have w: "map_of (processErrors ?t [] []) (join_path (path ?i)) = Some ''Name needs 2 characters''"
    by (simp add: join_path_def newPath_def)
  from root_message_overwrites [OF f m refl pre i w]
  have "map_of (errors (snd (validate (\<lambda>v. Failure ?t ([] @ ?i # ?post)) ?s))) (join_path (path ?i))
          = Some (hd (messages ?t))"
    by blast
  then have "map_of (errors (snd (validate (\<lambda>v. Failure ?t ([] @ ?i # ?post)) ?s))) ''name''
          = Some ''Passwords do not match''"
    by (simp add: join_path_def)
  moreover from w have "map_of (processErrors ?t [] []) ''name'' = Some ''Name needs 2 characters''"
    by (simp add: join_path_def)
  ultimately show ?thesis by simp
qed

end
